theory Spec2Isabelle
  imports Main "HOL-Library.Multiset" "HOL-Library.Sublist" "HOL-Library.Log_Nat"
begin

section \<open>The accessor layer of gitlabserver.go\<close>

text \<open>
  The theory embeds the methods of \<^verbatim>\<open>GitlabServer\<close> (gitlabserver.go). The remote
  API client is a collaborator and not part of the file: what one of its calls returns is
  a field of the record \<open>client\<close>, so that a run of a method is a function of the
  answers the client gives. A Go value of pointer type that may be nil is an \<open>option\<close>,
  a run-time panic is the left summand of the result, and the Go return tuple is the right
  one. Console output (\<^verbatim>\<open>fmt.Printf\<close>) is not part of the model, except for the
  values a print statement reads, since reading them can fault. Running out of memory is
  not part of the model; the check of a capacity that \<^verbatim>\<open>make\<close> does before it allocates
  is.
\<close>

subsection \<open>Values\<close>

datatype panic = IndexOutOfRange | NilDereference | MakeSliceCapOutOfRange

text \<open>
  Go's \<^verbatim>\<open>error\<close> values by where they are made: returned by the API client, made by
  \<^verbatim>\<open>strconv.Atoi\<close> (a \<^verbatim>\<open>*NumError\<close> holding the offending text, for bad syntax or
  for a value out of range), and made by \<^verbatim>\<open>fmt.Errorf\<close> (a plain error holding its
  message).
\<close>

datatype error = ClientError string | NumErrorSyntax string | NumErrorRange string
  | ErrorString string

text \<open>
  The dynamic type of an error, by which a caller can tell errors apart without reading
  their messages: \<^verbatim>\<open>fmt.Errorf\<close> with no wrapped error makes values of the one type
  \<^verbatim>\<open>*errors.errorString\<close>.
\<close>

datatype error_type = client_error | strconv_NumError | errors_errorString

definition dynamic_type :: "error \<Rightarrow> error_type" where
  "dynamic_type e =
     (case e of
        ClientError _ \<Rightarrow> client_error
      | NumErrorSyntax _ \<Rightarrow> strconv_NumError
      | NumErrorRange _ \<Rightarrow> strconv_NumError
      | ErrorString _ \<Rightarrow> errors_errorString)"

record response =
  Status :: string
  StatusCode :: int
  NextPage :: int
  Header :: "string \<rightharpoonup> string list"
  Body :: string

record project =
  project_ID :: int
  Name :: string
  WebURL :: string

record group =
  group_ID :: int
  FullPath :: string

record commit =
  commit_ID :: string

text \<open>
  The client: the host of its base URL, and for each call the methods make, the answer
  to it as a function of the arguments that vary (the page asked for, the project or
  group identifier, the search text). \<^verbatim>\<open>NewRequest\<close> answers with the error alone, since
  the request it builds is only handed on to \<^verbatim>\<open>Do\<close>, which is keyed by the same path.
\<close>

record client =
  BaseURL_Host :: string
  NewRequest :: "string \<Rightarrow> string \<Rightarrow> error option"
  Do :: "string \<Rightarrow> string \<Rightarrow> response option \<times> error option"
  ListProjects :: "int \<Rightarrow> project list \<times> response option \<times> error option"
  ListGroups :: "int \<Rightarrow> group list \<times> response option \<times> error option"
  ListCommits :: "int \<Rightarrow> commit list \<times> response option \<times> error option"
  ListGroupProjects :: "int \<Rightarrow> string \<Rightarrow> project list \<times> response option \<times> error option"

definition ITEMS_PER_PAGE :: int where
  "ITEMS_PER_PAGE = 100"

subsection \<open>The Go library functions the methods call\<close>

text \<open>
  \<^verbatim>\<open>strings.Cut\<close>: the text before and after the first occurrence of \<open>sep\<close>, if
  there is one (\<^verbatim>\<open>strings.Index\<close> gives the length of the first part).
\<close>

fun Cut :: "string \<Rightarrow> string \<Rightarrow> (string \<times> string) option" where
  "Cut [] sep = (if sep = [] then Some ([], []) else None)"
| "Cut (c # s) sep =
     (if prefix sep (c # s) then Some ([], drop (length sep) (c # s))
      else map_option (\<lambda>(before, after). (c # before, after)) (Cut s sep))"

text \<open>
  \<^verbatim>\<open>utf8.DecodeRuneInString\<close>, the size only: the number of bytes of the first
  UTF-8 sequence of a non-empty text, and 1 for a byte that starts no valid sequence.
\<close>

definition continuation :: "nat \<Rightarrow> nat \<Rightarrow> string \<Rightarrow> nat \<Rightarrow> bool" where
  "continuation lo hi s k =
     (k < length s \<and> (if k = 1 then lo \<le> of_char (s ! k) \<and> of_char (s ! k) \<le> (hi::nat)
                       else 128 \<le> (of_char (s ! k) :: nat) \<and> (of_char (s ! k) :: nat) \<le> 191))"

definition sequence_size :: "nat \<Rightarrow> nat \<Rightarrow> nat \<Rightarrow> string \<Rightarrow> nat" where
  "sequence_size sz lo hi s = (if \<forall>k \<in> {1..<sz}. continuation lo hi s k then sz else 1)"

definition rune_size :: "string \<Rightarrow> nat" where
  "rune_size s =
     (let s0 = (of_char (hd s) :: nat) in
      if s0 < 194 then 1
      else if s0 < 224 then sequence_size 2 128 191 s
      else if s0 = 224 then sequence_size 3 160 191 s
      else if s0 = 237 then sequence_size 3 128 159 s
      else if s0 < 240 then sequence_size 3 128 191 s
      else if s0 = 240 then sequence_size 4 144 191 s
      else if s0 < 244 then sequence_size 4 128 191 s
      else if s0 = 244 then sequence_size 4 128 143 s
      else 1)"

lemma rune_size_pos: "0 < rune_size s"
  by (simp add: rune_size_def sequence_size_def Let_def)

text \<open>\<^verbatim>\<open>explode\<close> of strings.go: the text cut into its UTF-8 sequences.\<close>

function explode :: "string \<Rightarrow> string list" where
  "explode s = (if s = [] then [] else take (rune_size s) s # explode (drop (rune_size s) s))"
  by pat_completeness auto
termination
  by (relation "measure length") (auto simp: rune_size_pos)

lemma Cut_length: "Cut s sep = Some (b, a) \<Longrightarrow> sep \<noteq> [] \<Longrightarrow> length a < length s"
  by (induction s arbitrary: b) (auto split: if_splits)

text \<open>
  \<^verbatim>\<open>strings.Split\<close>: the pieces of \<open>s\<close> between the occurrences of \<open>sep\<close>, found
  from the left, each search starting after the occurrence before. A text without \<open>sep\<close>
  is the one piece; an empty \<open>sep\<close> cuts after each UTF-8 sequence.
\<close>

function Split :: "string \<Rightarrow> string \<Rightarrow> string list" where
  "Split s sep =
     (if sep = [] then explode s
      else case Cut s sep of
             None \<Rightarrow> [s]
           | Some (before, after) \<Rightarrow> before # Split after sep)"
  by pat_completeness auto
termination
  by (relation "measure (\<lambda>(s, sep). length s)") (auto simp: Cut_length)

declare explode.simps [simp del] Split.simps [simp del]

text \<open>
  \<^verbatim>\<open>strconv.Atoi\<close> on a platform whose \<^verbatim>\<open>int\<close> has 64 bits: an optional sign, then
  one or more decimal digits and nothing else; the value must fit the type. The digits
  are read from the left into an unsigned number of 64 bits, and the first character that
  is no digit or takes the number out of range decides the error.
\<close>

datatype num_error = ErrSyntax | ErrRange

definition is_digit :: "char \<Rightarrow> bool" where
  "is_digit c = (48 \<le> (of_char c :: nat) \<and> (of_char c :: nat) \<le> 57)"

fun ParseUint :: "int \<Rightarrow> string \<Rightarrow> num_error + int" where
  "ParseUint n [] = Inr n"
| "ParseUint n (c # cs) =
     (if \<not> is_digit c then Inl ErrSyntax
      else if 2 ^ 64 div 10 + 1 \<le> n then Inl ErrRange
      else let n1 = n * 10 + (int (of_char c) - 48)
           in if 2 ^ 64 - 1 < n1 then Inl ErrRange else ParseUint n1 cs)"

definition Atoi :: "string \<Rightarrow> error + int" where
  "Atoi s =
     (let neg = (s \<noteq> [] \<and> hd s = CHR ''-'');
          ds = (if s \<noteq> [] \<and> (hd s = CHR ''-'' \<or> hd s = CHR ''+'') then tl s else s)
      in if ds = [] then Inl (NumErrorSyntax s)
         else case ParseUint 0 ds of
                Inl ErrSyntax \<Rightarrow> Inl (NumErrorSyntax s)
              | Inl ErrRange \<Rightarrow> Inl (NumErrorRange s)
              | Inr un \<Rightarrow>
                  if \<not> neg \<and> 2 ^ 63 \<le> un then Inl (NumErrorRange s)
                  else if neg \<and> 2 ^ 63 < un then Inl (NumErrorRange s)
                  else Inr (if neg then - un else un))"

text \<open>The verb \<^verbatim>\<open>%d\<close> of \<^verbatim>\<open>fmt\<close>: a number in decimal.\<close>

fun decimal :: "nat \<Rightarrow> string" where
  "decimal n =
     (if n < 10 then [char_of (48 + n)] else decimal (n div 10) @ [char_of (48 + n mod 10)])"

declare decimal.simps [simp del]

definition format_d :: "int \<Rightarrow> string" where
  "format_d i = (if i < 0 then CHR ''-'' # decimal (nat (- i)) else decimal (nat i))"

text \<open>
  Indexing a slice: Go panics when the index is not below the length.
\<close>

definition index_at :: "'a list \<Rightarrow> nat \<Rightarrow> panic + 'a" where
  "index_at xs i = (if i < length xs then Inr (xs ! i) else Inl IndexOutOfRange)"

text \<open>
  The type \<^verbatim>\<open>float64\<close>: the conversion of a number to the nearest value with a
  significand of 53 bits, ties going to the even significand. The numbers are rationals;
  the definition is the IEEE rounding for 0 and for numbers from \<open>1 / 2 ^ 7\<close> up to the
  largest \<^verbatim>\<open>int\<close>, which covers a count and its hundredth.
\<close>

definition round_half_even :: "rat \<Rightarrow> int" where
  "round_half_even q =
     (let f = \<lfloor>q\<rfloor>; d = q - of_int f
      in if d < 1 / 2 then f else if 1 / 2 < d then f + 1 else if even f then f else f + 1)"

definition float64 :: "rat \<Rightarrow> rat" where
  "float64 x =
     (if x = 0 then 0
      else let e = nat (bitlen \<lfloor>x * 2 ^ 60\<rfloor> - 53)
           in of_int (round_half_even (x * 2 ^ 60 / 2 ^ e)) * 2 ^ e / 2 ^ 60)"

text \<open>
  \<^verbatim>\<open>make\<close> of a slice of pointers with length 0 and a capacity, as \<^verbatim>\<open>makeslice\<close> of
  the runtime checks it before it allocates, on a platform of 64 bits: the capacity must
  not be negative, and its elements, of 8 bytes each, must not take more than the
  \<open>2 ^ 48\<close> bytes the runtime can address. Otherwise \<^verbatim>\<open>make\<close> panics. So the largest
  capacity is \<open>2 ^ 45\<close>.
\<close>

definition maxAlloc :: int where
  "maxAlloc = 2 ^ 48"

definition PtrSize :: int where
  "PtrSize = 8"

definition makeslice_panics :: "int \<Rightarrow> bool" where
  "makeslice_panics cap = (cap < 0 \<or> maxAlloc < PtrSize * cap)"

subsection \<open>The count methods\<close>

text \<open>
  \<^verbatim>\<open>ProjectCount\<close>, \<^verbatim>\<open>GroupCount\<close> and \<^verbatim>\<open>UserCount\<close> have the same body up to the
  path of the request, which is the parameter of \<open>header_count\<close>. The response is
  dereferenced for its body (closed on return) and its header; the header is a map from a
  name to the list of its values, and a missing name reads as the empty list.
\<close>

definition header_count :: "client \<Rightarrow> string \<Rightarrow> panic + int \<times> error option" where
  "header_count g path =
     (case NewRequest g ''GET'' path of
        Some err \<Rightarrow> Inr (0, Some err)
      | None \<Rightarrow>
          (case Do g ''GET'' path of
             (_, Some err) \<Rightarrow> Inr (0, Some err)
           | (None, None) \<Rightarrow> Inl NilDereference
           | (Some res, None) \<Rightarrow>
               (case index_at (case Header res ''X-Total'' of None \<Rightarrow> [] | Some vs \<Rightarrow> vs) 0 of
                  Inl p \<Rightarrow> Inl p
                | Inr v \<Rightarrow>
                    (case Atoi v of
                       Inl err \<Rightarrow> Inr (0, Some err)
                     | Inr cnt \<Rightarrow> Inr (cnt, None)))))"

definition ProjectCount :: "client \<Rightarrow> panic + int \<times> error option" where
  "ProjectCount g = header_count g ''projects''"

definition GroupCount :: "client \<Rightarrow> panic + int \<times> error option" where
  "GroupCount g = header_count g ''groups''"

definition UserCount :: "client \<Rightarrow> panic + int \<times> error option" where
  "UserCount g = header_count g ''users''"

subsection \<open>Projects: one task per page\<close>

definition pagesToCheck :: "int \<Rightarrow> int" where
  "pagesToCheck projectCount = \<lceil>float64 (float64 (of_int projectCount) / of_int ITEMS_PER_PAGE)\<rceil>"

text \<open>
  The body of a task up to the lock: the items it is going to append. When the call has
  an error, the print statement reads \<^verbatim>\<open>resp.Status\<close>.
\<close>

definition page_task :: "client \<Rightarrow> int \<Rightarrow> panic + project list" where
  "page_task g page =
     (case ListProjects g page of
        (p, resp, Some err) \<Rightarrow> (case resp of None \<Rightarrow> Inl NilDereference | Some r \<Rightarrow> Inr p)
      | (p, resp, None) \<Rightarrow> Inr p)"

text \<open>
  The tasks share the slice under a mutex, so a run appends the pages' items in the
  order in which the tasks take the lock, and the method returns once every task is done.
  A schedule says, at each step, which of the tasks still running is next: its number in
  the list of those, modulo their count (an exhausted schedule takes the first). A panic
  in a task ends the program.
\<close>

lemma running_less: "running \<noteq> [] \<Longrightarrow> k mod length running + (length running - Suc (k mod length running)) < length running"
  using mod_less_divisor [of "length running" k] by (simp del: mod_less_divisor)

function completion_order :: "nat list \<Rightarrow> 'a list \<Rightarrow> 'a list" where
  "completion_order sched running =
     (if running = [] then []
      else let i = (case sched of [] \<Rightarrow> 0 | k # _ \<Rightarrow> k mod length running)
           in running ! i # completion_order (tl sched) (take i running @ drop (Suc i) running))"
  by pat_completeness auto
termination
  by (relation "measure (\<lambda>(sched, running). length running)") (auto split: list.splits simp: running_less)

declare completion_order.simps [simp del]

fun run_tasks :: "client \<Rightarrow> int list \<Rightarrow> project list \<Rightarrow> panic + project list" where
  "run_tasks g [] projects = Inr projects"
| "run_tasks g (page # pages) projects =
     (case page_task g page of
        Inl p \<Rightarrow> Inl p
      | Inr items \<Rightarrow> run_tasks g pages (projects @ items))"

definition Projects :: "client \<Rightarrow> nat list \<Rightarrow> panic + project list \<times> error option" where
  "Projects g sched =
     (case ProjectCount g of
        Inl p \<Rightarrow> Inl p
      | Inr (projectCount, Some err) \<Rightarrow> Inr ([], Some err)
      | Inr (projectCount, None) \<Rightarrow>
          if makeslice_panics projectCount then Inl MakeSliceCapOutOfRange
          else (case run_tasks g (completion_order sched [1..pagesToCheck projectCount]) [] of
                  Inl p \<Rightarrow> Inl p
                | Inr projects \<Rightarrow> Inr (projects, None)))"

subsection \<open>Groups: page after page\<close>

text \<open>
  The loop of \<^verbatim>\<open>Groups\<close> has no bound: it ends when a response names no next page or
  a call fails, so the result is an \<open>option\<close>, \<open>None\<close> for a loop that goes on for ever.
\<close>

partial_function (option) list_groups ::
  "client \<Rightarrow> int \<Rightarrow> group list \<Rightarrow> (panic + group list \<times> error option) option" where
  "list_groups g page groups =
     (case ListGroups g page of
        (gs, resp, Some err) \<Rightarrow> Some (Inr ([], Some err))
      | (gs, None, None) \<Rightarrow> Some (Inl NilDereference)
      | (gs, Some r, None) \<Rightarrow>
          if NextPage r = 0 then Some (Inr (groups @ gs, None))
          else list_groups g (NextPage r) (groups @ gs))"

declare list_groups.simps [code]

definition Groups :: "client \<Rightarrow> (panic + group list \<times> error option) option" where
  "Groups g =
     (case GroupCount g of
        Inl p \<Rightarrow> Some (Inl p)
      | Inr (groupCount, Some err) \<Rightarrow> Some (Inr ([], Some err))
      | Inr (groupCount, None) \<Rightarrow>
          if makeslice_panics groupCount then Some (Inl MakeSliceCapOutOfRange)
          else list_groups g 1 [])"

subsection \<open>The hierarchy helpers\<close>

fun top_level_loop :: "client \<Rightarrow> group list \<Rightarrow> string list \<Rightarrow> panic + string list" where
  "top_level_loop g [] topLevelGroups = Inr topLevelGroups"
| "top_level_loop g (grp # groups) topLevelGroups =
     (case index_at (Split (FullPath grp) (BaseURL_Host g)) 0 of
        Inl p \<Rightarrow> Inl p
      | Inr fullPath0 \<Rightarrow>
          (case index_at (Split fullPath0 ''/'') 0 of
             Inl p \<Rightarrow> Inl p
           | Inr topLevelGroup0 \<Rightarrow>
               if topLevelGroup0 \<notin> set topLevelGroups
               then top_level_loop g groups (topLevelGroups @ [topLevelGroup0])
               else top_level_loop g groups topLevelGroups))"

definition TopLevelGroups :: "client \<Rightarrow> group list \<Rightarrow> panic + string list" where
  "TopLevelGroups g groups = top_level_loop g groups []"

definition ParentGroup :: "client \<Rightarrow> project \<Rightarrow> panic + string" where
  "ParentGroup g p =
     (case index_at (Split (WebURL p) (BaseURL_Host g)) 1 of
        Inl f \<Rightarrow> Inl f
      | Inr fullPath1 \<Rightarrow> index_at (Split fullPath1 ''/'') 1)"

subsection \<open>Single requests\<close>

definition StatusOK :: int where
  "StatusOK = 200"

definition GetLatestCommit :: "client \<Rightarrow> project \<Rightarrow> panic + string \<times> error option" where
  "GetLatestCommit g p =
     (case ListCommits g (project_ID p) of
        (commits, resp, Some err) \<Rightarrow> Inr ([], Some err)
      | (commits, None, None) \<Rightarrow> Inl NilDereference
      | (commits, Some r, None) \<Rightarrow>
          if StatusCode r \<noteq> StatusOK
          then Inr ([], Some (ErrorString (''status code '' @ format_d (StatusCode r)
                 @ '' not expected, expecting '' @ format_d StatusOK)))
          else if length commits = 0 then Inr ([], Some (ErrorString ''this repo has no commits''))
          else Inr (commit_ID (commits ! 0), None))"

fun same_name_loop :: "string \<Rightarrow> project list \<Rightarrow> bool \<times> response option \<times> error option" where
  "same_name_loop projectName [] = (True, None, None)"
| "same_name_loop projectName (gitlabProject # gitlabProjects) =
     (if projectName \<noteq> Name gitlabProject then (False, None, None)
      else same_name_loop projectName gitlabProjects)"

definition ProjectExists :: "client \<Rightarrow> int \<Rightarrow> string \<Rightarrow> bool \<times> response option \<times> error option" where
  "ProjectExists g gid projectName =
     (case ListGroupProjects g gid projectName of
        (gitlabProjects, resp, Some err) \<Rightarrow> (False, resp, Some err)
      | (gitlabProjects, resp, None) \<Rightarrow>
          if length gitlabProjects = 0 then (False, None, None)
          else same_name_loop projectName gitlabProjects)"

subsection \<open>Words for the properties\<close>

text \<open>
  The items the listing of a page of projects answers with, and the answers that carry an
  error and no response.
\<close>

definition page_items :: "client \<Rightarrow> int \<Rightarrow> project list" where
  "page_items g page = fst (ListProjects g page)"

definition error_without_response :: "client \<Rightarrow> int \<Rightarrow> bool" where
  "error_without_response g page =
     (fst (snd (ListProjects g page)) = None \<and> snd (snd (ListProjects g page)) \<noteq> None)"

text \<open>
  The items the listing of a page of groups answers with. \<open>next_pages g page ps\<close>: from
  \<open>page\<close> on, the listings answer without an error and name as the next page, one after
  the other, the pages \<open>ps\<close>, none of them 0, and then 0. \<open>next_pages_fail\<close>: they name
  the pages \<open>ps\<close> and the listing of the last one answers with the error.
\<close>

definition group_items :: "client \<Rightarrow> int \<Rightarrow> group list" where
  "group_items g page = fst (ListGroups g page)"

fun next_pages :: "client \<Rightarrow> int \<Rightarrow> int list \<Rightarrow> bool" where
  "next_pages g page [] =
     (case ListGroups g page of (gs, Some r, None) \<Rightarrow> NextPage r = 0 | _ \<Rightarrow> False)"
| "next_pages g page (p # ps) =
     (case ListGroups g page of
        (gs, Some r, None) \<Rightarrow> NextPage r = p \<and> p \<noteq> 0 \<and> next_pages g p ps
      | _ \<Rightarrow> False)"

fun next_pages_fail :: "client \<Rightarrow> int \<Rightarrow> int list \<Rightarrow> error \<Rightarrow> bool" where
  "next_pages_fail g page [] err = (snd (snd (ListGroups g page)) = Some err)"
| "next_pages_fail g page (p # ps) err =
     (case ListGroups g page of
        (gs, Some r, None) \<Rightarrow> NextPage r = p \<and> p \<noteq> 0 \<and> next_pages_fail g p ps err
      | _ \<Rightarrow> False)"

text \<open>
  The text before the first occurrence of \<open>sep\<close>, all of it when there is none; a list
  without the later occurrences of its elements; and the component \<^verbatim>\<open>TopLevelGroups\<close>
  takes from a group: of the full path before the first occurrence of the host, the text
  before the first slash.
\<close>

fun before_first :: "string \<Rightarrow> string \<Rightarrow> string" where
  "before_first sep [] = []"
| "before_first sep (c # s) = (if prefix sep (c # s) then [] else c # before_first sep s)"

primrec first_seen :: "'a list \<Rightarrow> 'a list" where
  "first_seen [] = []"
| "first_seen (x # xs) = x # removeAll x (first_seen xs)"

definition top_level_of :: "string \<Rightarrow> group \<Rightarrow> string" where
  "top_level_of host grp = takeWhile (\<lambda>c. c \<noteq> CHR ''/'') (before_first host (FullPath grp))"

subsection \<open>Clients to run the methods on\<close>

definition ok_response :: "int \<Rightarrow> response" where
  "ok_response next_page =
     \<lparr>Status = ''200 OK'', StatusCode = 200, NextPage = next_page, Header = Map.empty, Body = ''[]''\<rparr>"

definition accepted :: response where
  "accepted = (ok_response 0)\<lparr>Status := ''202 Accepted'', StatusCode := 202\<rparr>"

definition named :: "string \<Rightarrow> project" where
  "named n = \<lparr>project_ID = 1, Name = n, WebURL = ''https://host/GroupA/'' @ n\<rparr>"

definition demo :: client where
  "demo =
     \<lparr>BaseURL_Host = ''host'',
      NewRequest = (\<lambda>method path. None),
      Do = (\<lambda>method path. (Some ((ok_response 0)\<lparr>Header := [''X-Total'' \<mapsto> [''250'']]\<rparr>), None)),
      ListProjects = (\<lambda>page. ([(named ''app'')\<lparr>project_ID := page\<rparr>], Some (ok_response 0), None)),
      ListGroups = (\<lambda>page.
        ([\<lparr>group_ID = page, FullPath = ''A/x''\<rparr>], Some (ok_response (if page < 3 then page + 1 else 0)), None)),
      ListCommits = (\<lambda>pid.
        if pid = 1 then ([\<lparr>commit_ID = ''c0ffee''\<rparr>, \<lparr>commit_ID = ''decade''\<rparr>], Some (ok_response 0), None)
        else if pid = 2 then ([], Some (ok_response 0), None)
        else if pid = 3 then ([], Some accepted, None)
        else ([], None, Some (ClientError ''connection refused''))),
      ListGroupProjects = (\<lambda>gid search.
        if gid = 1 then ([named ''app'', named ''app-docs''], Some (ok_response 0), None)
        else if gid = 2 then ([named ''app''], Some (ok_response 0), None)
        else ([], Some (ok_response 0), None))\<rparr>"

text \<open>
  Variants of it: the listing of page 2 cannot be sent; no listing can be sent; every
  listing is refused by the server; the count request is answered without the header
  \<^verbatim>\<open>X-Total\<close>.
\<close>

definition offline :: client where
  "offline = demo\<lparr>ListProjects := (\<lambda>page.
     if page = 2 then ([], None, Some (ClientError ''connection refused''))
     else ListProjects demo page)\<rparr>"


definition headerless :: client where
  "headerless = demo\<lparr>Do := (\<lambda>method path. (Some (ok_response 0), None))\<rparr>"


text \<open>The listing of groups names page 2 after page 1 and fails on page 2.\<close>

definition flaky :: client where
  "flaky = demo\<lparr>ListGroups := (\<lambda>page.
     if page = 1 then ([\<lparr>group_ID = 1, FullPath = ''A/x''\<rparr>], Some (ok_response 2), None)
     else ([], None, Some (ClientError ''timeout'')))\<rparr>"




text \<open>Groups of given full paths, and a project of a given web URL.\<close>

definition at_paths :: "string list \<Rightarrow> group list" where
  "at_paths paths = map (\<lambda>path. \<lparr>group_ID = 0, FullPath = path\<rparr>) paths"

definition at_url :: "string \<Rightarrow> project" where
  "at_url url = \<lparr>project_ID = 1, Name = ''project1'', WebURL = url\<rparr>"

section \<open>Properties\<close>

subsection \<open>Cutting and splitting\<close>

lemma Cut_append: "Cut s sep = Some (b, a) \<Longrightarrow> s = b @ sep @ a"
proof (induction s arbitrary: b)
  case Nil
  then show ?case by (simp split: if_splits)
next
  case (Cons c s)
  show ?case
  proof (cases "prefix sep (c # s)")
    case True
    with Cons.prems have ba: "b = []" "a = drop (length sep) (c # s)"
      by simp_all
    from True obtain r where "c # s = sep @ r"
      by (auto simp: prefix_def)
    then show ?thesis
      unfolding ba by simp
  next
    case False
    with Cons.prems obtain b' where "Cut s sep = Some (b', a)" "b = c # b'"
      by auto
    with Cons.IH show ?thesis by simp
  qed
qed

lemma Cut_before_first:
  "sep \<noteq> [] \<Longrightarrow> Cut s sep = Some (b, a) \<Longrightarrow> b = before_first sep s"
  by (induction s arbitrary: b) (auto split: if_splits)

lemma Cut_None_before_first: "Cut s sep = None \<Longrightarrow> before_first sep s = s"
  by (induction s) (auto split: if_splits)

lemma Cut_absent: "\<not> sublist sep s \<Longrightarrow> Cut s sep = None"
proof (induction s)
  case Nil
  then show ?case by auto
next
  case (Cons c s)
  then have "\<not> prefix sep (c # s)" "\<not> sublist sep s"
    by (auto simp: sublist_Cons_right)
  with Cons.IH show ?case by simp
qed

lemma Cut_first:
  assumes "sep \<noteq> []" and "\<not> sublist sep (butlast (b @ sep))"
  shows "Cut (b @ sep @ a) sep = Some (b, a)"
  using assms(2)
proof (induction b)
  case Nil
  from assms(1) obtain c r where "sep = c # r" by (cases sep) auto
  then show ?case by simp
next
  case (Cons x b)
  have bl: "butlast ((x # b) @ sep) = x # butlast (b @ sep)"
    using assms(1) by simp
  have "\<not> prefix sep ((x # b) @ sep @ a)"
  proof
    assume "prefix sep ((x # b) @ sep @ a)"
    then have "prefix sep (butlast ((x # b) @ sep) @ (last sep # a))"
      using assms(1) by (simp add: butlast_append last_appendR flip: append_assoc)
        (metis append.assoc append_butlast_last_id butlast_append append_Cons append_Nil)
    moreover have "length sep \<le> length (butlast ((x # b) @ sep))"
      by simp
    ultimately have "prefix sep (butlast ((x # b) @ sep))"
      by (metis prefix_length_prefix prefixI prefix_order.eq_iff append_prefixD prefix_append)
    then show False
      using Cons.prems by (auto dest: prefix_imp_sublist)
  qed
  moreover have "\<not> sublist sep (butlast (b @ sep))"
    using Cons.prems bl by (auto simp: sublist_Cons_right)
  ultimately show ?case
    using Cons.IH by simp
qed

lemma Split_hd: "sep \<noteq> [] \<Longrightarrow> \<exists>rest. Split s sep = before_first sep s # rest"
  by (subst Split.simps)
    (auto simp: Cut_None_before_first dest: Cut_before_first split: option.splits)

lemma Split_absent: "sep \<noteq> [] \<Longrightarrow> \<not> sublist sep s \<Longrightarrow> Split s sep = [s]"
  by (subst Split.simps) (simp add: Cut_absent)

lemma Split_first:
  "sep \<noteq> [] \<Longrightarrow> \<not> sublist sep (butlast (b @ sep)) \<Longrightarrow> Split (b @ sep @ a) sep = b # Split a sep"
  by (subst Split.simps) (simp add: Cut_first)

lemma sublist_single: "sublist [c] s = (c \<in> set s)"
  by (induction s) (auto simp: sublist_Cons_right)

lemma before_first_single: "before_first [c] s = takeWhile (\<lambda>x. x \<noteq> c) s"
  by (induction s) auto

lemma index_at_0: "index_at (x # xs) 0 = Inr x"
  by (simp add: index_at_def)

lemma top_level_loop_first_seen:
  assumes "BaseURL_Host g \<noteq> []"
  shows "top_level_loop g groups seen =
           Inr (seen @ filter (\<lambda>y. y \<notin> set seen) (first_seen (map (top_level_of (BaseURL_Host g)) groups)))"
proof (induction groups arbitrary: seen)
  case Nil
  then show ?case by simp
next
  case (Cons grp groups)
  obtain r1 where r1: "Split (FullPath grp) (BaseURL_Host g)
      = before_first (BaseURL_Host g) (FullPath grp) # r1"
    using Split_hd [OF assms] by blast
  obtain r2 where r2: "Split (before_first (BaseURL_Host g) (FullPath grp)) ''/''
      = top_level_of (BaseURL_Host g) grp # r2"
    using Split_hd [of "''/''" "before_first (BaseURL_Host g) (FullPath grp)"]
    by (auto simp: top_level_of_def before_first_single)
  let ?x = "top_level_of (BaseURL_Host g) grp"
  let ?rest = "first_seen (map (top_level_of (BaseURL_Host g)) groups)"
  show ?case
  proof (cases "?x \<in> set seen")
    case True
    then have "filter (\<lambda>y. y \<notin> set seen) (removeAll ?x ?rest) = filter (\<lambda>y. y \<notin> set seen) ?rest"
      by (auto simp: removeAll_filter_not_eq intro: filter_cong)
    with True show ?thesis
      by (simp add: r1 r2 index_at_0 Cons.IH)
  next
    case False
    have "filter (\<lambda>y. y \<notin> set (seen @ [?x])) ?rest = filter (\<lambda>y. y \<notin> set seen) (removeAll ?x ?rest)"
      by (auto simp: removeAll_filter_not_eq intro: filter_cong)
    with False show ?thesis
      by (simp add: r1 r2 index_at_0 Cons.IH)
  qed
qed

lemma distinct_first_seen: "distinct (first_seen xs)"
  by (induction xs) (auto simp: distinct_removeAll)

lemma set_first_seen: "set (first_seen xs) = set xs"
  by (induction xs) auto

lemma before_first_absent: "\<not> sublist sep s \<Longrightarrow> before_first sep s = s"
  by (induction s) (auto simp: sublist_Cons_right)

lemma set_before_first: "set (before_first sep s) \<subseteq> set s"
  by (induction s) auto

lemma before_first_segment:
  assumes "sep \<noteq> []" and "c \<notin> set sep" and "\<not> sublist sep seg" and "tail = [] \<or> hd tail = c"
  shows "\<exists>t. before_first sep (seg @ tail) = seg @ t \<and> (t = [] \<or> hd t = c)"
  using assms(3)
proof (induction seg)
  case Nil
  show ?case
  proof (cases tail)
    case Nil
    then show ?thesis by simp
  next
    case (Cons x tl)
    with assms(4) have "x = c" by simp
    with assms(1,2) have "\<not> prefix sep (x # tl)"
      by (cases sep) auto
    with Cons \<open>x = c\<close> show ?thesis by simp
  qed
next
  case (Cons x seg)
  have "\<not> prefix sep ((x # seg) @ tail)"
  proof
    assume "prefix sep ((x # seg) @ tail)"
    then consider "prefix sep (x # seg)" | us where "sep = (x # seg) @ us" "prefix us tail" "us \<noteq> []"
      unfolding prefix_append by (cases "sep = x # seg") auto
    then show False
    proof cases
      case 1
      with Cons.prems show False by (auto dest: prefix_imp_sublist)
    next
      case 2
      then have "tail \<noteq> []" "hd us = hd tail"
        by (auto simp: prefix_def)
      with assms(4) 2 have "c \<in> set sep"
        by (cases us) auto
      with assms(2) show False ..
    qed
  qed
  moreover have "\<not> sublist sep seg"
    using Cons.prems by (auto simp: sublist_Cons_right)
  ultimately show ?case
    using Cons.IH by auto
qed

lemma Split_slash_second:
  assumes "CHR ''/'' \<notin> set seg" and "t = [] \<or> hd t = CHR ''/''"
  shows "index_at (Split (''/'' @ seg @ t) ''/'') 1 = Inr seg"
proof -
  have first: "Split (''/'' @ seg @ t) ''/'' = [] # Split (seg @ t) ''/''"
    using Split_first [of "''/''" "[]" "seg @ t"] by simp
  have "\<exists>rest. Split (seg @ t) ''/'' = seg # rest"
  proof (cases t)
    case Nil
    with assms(1) show ?thesis
      by (simp add: Split_absent sublist_single)
  next
    case (Cons x tl)
    with assms(2) have "t = ''/'' @ tl" by simp
    moreover have "Split (seg @ ''/'' @ tl) ''/'' = seg # Split tl ''/''"
      using assms(1) by (intro Split_first) (simp_all add: sublist_single)
    ultimately show ?thesis by simp
  qed
  with first show ?thesis
    by (auto simp: index_at_def)
qed


subsection \<open>The count methods\<close>

lemma Atoi_250: "Atoi ''250'' = Inr 250"
  by code_simp


lemma header_count_as_demo:
  "NewRequest g = NewRequest demo \<Longrightarrow> Do g = Do demo \<Longrightarrow> header_count g path = Inr (250, None)"
  by (simp add: header_count_def demo_def ok_response_def index_at_def Atoi_250)


lemma header_count_X_Total:
  assumes "NewRequest g ''GET'' path = None" and "Do g ''GET'' path = (Some res, None)"
    and "Header res ''X-Total'' = Some (v # vs)"
  shows "header_count g path = (case Atoi v of Inl err \<Rightarrow> Inr (0, Some err) | Inr n \<Rightarrow> Inr (n, None))"
  using assms by (simp add: header_count_def index_at_def)

text \<open>
  C7. The count is read from the header \<^verbatim>\<open>X-Total\<close> of the response (lemma
  \<open>header_count_X_Total\<close>: its first value, through \<^verbatim>\<open>Atoi\<close>, whose error is
  returned for a text that is no number; the body is not read). A response without that
  header is not answered with an error: the three methods index the empty list of values
  and stop with an index out of range.
\<close>

theorem count_without_X_Total:
  "ProjectCount headerless = Inl IndexOutOfRange
   \<and> GroupCount headerless = Inl IndexOutOfRange
   \<and> UserCount headerless = Inl IndexOutOfRange"
  by (simp add: ProjectCount_def GroupCount_def UserCount_def header_count_def headerless_def
      demo_def ok_response_def index_at_def)

subsection \<open>Projects\<close>

lemma page_task_result:
  "page_task g page =
     (if error_without_response g page then Inl NilDereference else Inr (page_items g page))"
  by (auto simp: page_task_def error_without_response_def page_items_def
      split: prod.splits option.splits)

lemma run_tasks_result:
  "run_tasks g pages projects =
     (if \<exists>page \<in> set pages. error_without_response g page then Inl NilDereference
      else Inr (projects @ concat (map (page_items g) pages)))"
  by (induction pages arbitrary: projects) (auto simp: page_task_result)

lemma mset_without_nth:
  assumes "i < length xs"
  shows "add_mset (xs ! i) (mset (take i xs @ drop (Suc i) xs)) = mset xs"
proof -
  have "mset xs = mset (take (Suc i) xs) + mset (drop (Suc i) xs)"
    by (simp flip: mset_append)
  also have "take (Suc i) xs = take i xs @ [xs ! i]"
    using assms by (rule take_Suc_conv_app_nth)
  finally show ?thesis by simp
qed

lemma mset_completion_order: "mset (completion_order sched running) = mset running"
proof (induction sched running rule: completion_order.induct)
  case (1 sched running)
  show ?case
  proof (cases "running = []")
    case True
    then show ?thesis by (simp add: completion_order.simps)
  next
    case False
    define i where "i = (case sched of [] \<Rightarrow> 0 | k # _ \<Rightarrow> k mod length running)"
    have i: "i < length running"
      using False by (simp add: i_def split: list.splits)
    have "mset (completion_order (tl sched) (take i running @ drop (Suc i) running))
            = mset (take i running @ drop (Suc i) running)"
      using "1.IH" [OF False i_def] .
    moreover have "completion_order sched running
            = running ! i # completion_order (tl sched) (take i running @ drop (Suc i) running)"
      using False by (subst completion_order.simps) (simp add: i_def Let_def)
    ultimately show ?thesis
      by (simp add: mset_without_nth [OF i, simplified])
  qed
qed

lemma set_completion_order: "set (completion_order sched running) = set running"
  using mset_completion_order [of sched running] by (metis set_mset_mset)

lemma mset_concat_map:
  assumes "mset xs = mset ys"
  shows "mset (concat (map f xs)) = mset (concat (map f ys))"
proof -
  have "mset (concat (map f zs)) = \<Sum>\<^sub># (image_mset (\<lambda>z. mset (f z)) (mset zs))" for zs
    by (induction zs) simp_all
  then show ?thesis
    using assms by simp
qed

lemma makeslice_panics_iff: "makeslice_panics cap = (cap < 0 \<or> 2 ^ 45 < cap)"
  by (auto simp: makeslice_panics_def maxAlloc_def PtrSize_def)

lemma makeslice_panics_above: "2 ^ 45 < cap \<Longrightarrow> makeslice_panics cap"
  by (simp add: makeslice_panics_iff)

lemma Projects_result:
  assumes "ProjectCount g = Inr (projectCount, None)" and "0 \<le> projectCount"
    and "projectCount \<le> 2 ^ 45"
  shows "Projects g sched =
           (if \<exists>page \<in> {1..pagesToCheck projectCount}. error_without_response g page
            then Inl NilDereference
            else Inr (concat (map (page_items g)
                   (completion_order sched [1..pagesToCheck projectCount])), None))"
  using assms by (simp add: Projects_def run_tasks_result set_completion_order makeslice_panics_iff)

lemma completion_order_any:
  "mset order = mset running \<Longrightarrow> \<exists>sched. completion_order sched running = order"
proof (induction order arbitrary: running)
  case Nil
  then show ?case by (simp add: completion_order.simps)
next
  case (Cons x order)
  have "x \<in> set running"
    using mset_eq_setD [OF Cons.prems] by auto
  then obtain i where i: "i < length running" "running ! i = x"
    by (auto simp: in_set_conv_nth)
  have "add_mset x (mset order) = add_mset x (mset (take i running @ drop (Suc i) running))"
    using Cons.prems mset_without_nth [OF i(1)] i(2) by simp
  then have "mset order = mset (take i running @ drop (Suc i) running)"
    by simp
  from Cons.IH [OF this] obtain sched
    where "completion_order sched (take i running @ drop (Suc i) running) = order" ..
  moreover have "running \<noteq> []"
    using i by auto
  ultimately have "completion_order (i # sched) running = x # order"
    using i by (subst completion_order.simps) (simp add: Let_def)
  then show ?case ..
qed

lemma pagesToCheck_250: "pagesToCheck 250 = 3"
  by code_simp


lemma header_count_demo: "header_count (demo\<lparr>ListProjects := f\<rparr>) path = Inr (250, None)"
  by (simp add: header_count_def demo_def ok_response_def index_at_def Atoi_250)

lemma ProjectCount_demo_pages: "ProjectCount (demo\<lparr>ListProjects := f\<rparr>) = Inr (250, None)"
  by (simp add: ProjectCount_def header_count_demo)






text \<open>
  When every listing that answers with an error has a response and no items, the failed
  pages are only logged: \<^verbatim>\<open>Projects\<close> returns no error and the items of the pages
  that succeeded.
\<close>

lemma sum_list_mset_succeeded:
  assumes "\<forall>x \<in> set xs. \<not> ok x \<longrightarrow> f x = []"
  shows "(\<Sum>x\<leftarrow>xs. mset (f x)) = (\<Sum>x\<leftarrow>filter ok xs. mset (f x))"
  using assms by (induction xs) auto

lemma Projects_failed_pages_logged:
  assumes "ProjectCount g = Inr (projectCount, None)" and "0 \<le> projectCount"
    and "projectCount \<le> 2 ^ 45"
    and "\<forall>page \<in> {1..pagesToCheck projectCount}. snd (snd (ListProjects g page)) \<noteq> None \<longrightarrow>
           fst (snd (ListProjects g page)) \<noteq> None \<and> page_items g page = []"
  shows "\<exists>projects. Projects g sched = Inr (projects, None)
           \<and> mset projects =
               (\<Sum>page\<leftarrow>filter (\<lambda>page. snd (snd (ListProjects g page)) = None)
                  [1..pagesToCheck projectCount]. mset (page_items g page))"
proof -
  let ?pages = "[1..pagesToCheck projectCount]"
  let ?order = "completion_order sched ?pages"
  have "\<not> (\<exists>page \<in> {1..pagesToCheck projectCount}. error_without_response g page)"
    using assms(4) unfolding error_without_response_def by blast
  then have run: "Projects g sched = Inr (concat (map (page_items g) ?order), None)"
    by (simp add: Projects_result [OF assms(1,2,3)])
  have "mset (concat (map (page_items g) ?order)) = mset (concat (map (page_items g) ?pages))"
    by (rule mset_concat_map) (rule mset_completion_order)
  also have "\<dots> = (\<Sum>page\<leftarrow>?pages. mset (page_items g page))"
    by (simp add: mset_concat comp_def)
  also have "\<dots> = (\<Sum>page\<leftarrow>filter (\<lambda>page. snd (snd (ListProjects g page)) = None) ?pages.
      mset (page_items g page))"
    using assms(4) by (intro sum_list_mset_succeeded) simp
  finally show ?thesis
    using run by simp
qed

text \<open>
  C2 at the input where it fails: the count is 250, so three pages are planned, and the
  listing of page 2 answers with an error and no response, as the client does for a
  request that cannot be sent. Under every schedule \<^verbatim>\<open>Projects\<close> ends in the panic
  of reading \<^verbatim>\<open>resp.Status\<close>; it returns neither a nil error nor the items of pages 1
  and 3.
\<close>

theorem Projects_page_without_response:
  "ListProjects offline 2 = ([], None, Some (ClientError ''connection refused''))
   \<and> ProjectCount offline = Inr (250, None)
   \<and> Projects offline sched = Inl NilDereference"
proof -
  have c: "ProjectCount offline = Inr (250, None)"
    by (simp add: offline_def ProjectCount_demo_pages)
  have "error_without_response offline 2"
    by (simp add: error_without_response_def offline_def)
  moreover have "(2::int) \<in> {1..pagesToCheck 250}"
    by (simp add: pagesToCheck_250)
  ultimately have "\<exists>page \<in> {1..pagesToCheck 250}. error_without_response offline page"
    by blast
  then have "Projects offline sched = Inl NilDereference"
    by (simp add: Projects_result [OF c] del: atLeastAtMost_iff)
  with c show ?thesis
    by (simp add: offline_def)
qed





subsection \<open>The page plan\<close>


















subsection \<open>Groups\<close>

lemma list_groups_next_pages:
  "next_pages g page ps \<Longrightarrow>
   list_groups g page groups = Some (Inr (groups @ concat (map (group_items g) (page # ps)), None))"
proof (induction ps arbitrary: page groups)
  case Nil
  then show ?case
    by (subst list_groups.simps) (auto simp: group_items_def split: prod.splits option.splits)
next
  case (Cons p ps)
  from Cons.prems obtain gs r where a: "ListGroups g page = (gs, Some r, None)"
    "NextPage r = p" "p \<noteq> 0" "next_pages g p ps"
    by (auto split: prod.splits option.splits)
  have "group_items g page = gs"
    using a(1) by (simp add: group_items_def)
  then show ?case
    using a Cons.IH [OF a(4), of "groups @ gs"]
    by (subst list_groups.simps) simp
qed

lemma list_groups_next_pages_fail:
  "next_pages_fail g page ps err \<Longrightarrow> list_groups g page groups = Some (Inr ([], Some err))"
proof (induction ps arbitrary: page groups)
  case Nil
  then show ?case
    by (subst list_groups.simps) (auto split: prod.splits option.splits)
next
  case (Cons p ps)
  from Cons.prems obtain gs r where a: "ListGroups g page = (gs, Some r, None)"
    "NextPage r = p" "p \<noteq> 0" "next_pages_fail g p ps err"
    by (auto split: prod.splits option.splits)
  show ?case
    using a Cons.IH [OF a(4), of "groups @ gs"]
    by (subst list_groups.simps) simp
qed

lemma list_groups_returns:
  assumes "list_groups g page groups = Some out"
  shows "(\<forall>all. out = Inr (all, None) \<longrightarrow>
            (\<exists>ps. next_pages g page ps \<and> all = groups @ concat (map (group_items g) (page # ps))))
       \<and> (\<forall>all err. out = Inr (all, Some err) \<longrightarrow> all = [] \<and> (\<exists>ps. next_pages_fail g page ps err))"
  using assms
proof (induction rule: list_groups.raw_induct [rotated 1, consumes 1])
  case (1 list_groups' g page groups out)
  obtain gs resp err where l: "ListGroups g page = (gs, resp, err)"
    by (cases "ListGroups g page") auto
  then have gi: "group_items g page = gs"
    by (simp add: group_items_def)
  show ?case
  proof (cases err)
    case (Some e)
    with 1(2) l have "out = Inr ([], Some e)" by (simp split: option.splits)
    moreover have "next_pages_fail g page [] e" using l Some by simp
    ultimately show ?thesis by blast
  next
    case None
    show ?thesis
    proof (cases resp)
      case None': None
      with 1(2) l None show ?thesis by auto
    next
      case (Some r)
      show ?thesis
      proof (cases "NextPage r = 0")
        case True
        with 1(2) l None Some have "out = Inr (groups @ gs, None)" by simp
        moreover have "next_pages g page []" using l None Some True by simp
        ultimately show ?thesis
          using gi by (auto intro!: exI [of _ "[]"] simp del: next_pages.simps)
      next
        case False
        with 1(2) l None Some have rec: "list_groups' g (NextPage r) (groups @ gs) = Some out" by simp
        have IH1: "\<exists>ps. next_pages g (NextPage r) ps
            \<and> all = (groups @ gs) @ concat (map (group_items g) (NextPage r # ps))"
          if "out = Inr (all, None)" for all
          using 1(1) [OF rec] that by simp
        have IH2: "all = [] \<and> (\<exists>ps. next_pages_fail g (NextPage r) ps e)"
          if "out = Inr (all, Some e)" for all e
          using 1(1) [OF rec] that by simp
        show ?thesis
        proof (intro conjI allI impI)
          fix all assume "out = Inr (all, None)"
          from IH1 [OF this] obtain ps where ps: "next_pages g (NextPage r) ps"
            "all = (groups @ gs) @ concat (map (group_items g) (NextPage r # ps))" by auto
          have "next_pages g page (NextPage r # ps)"
            using ps(1) l None Some False by simp
          moreover have "all = groups @ concat (map (group_items g) (page # NextPage r # ps))"
            using ps(2) gi by simp
          ultimately show "\<exists>ps. next_pages g page ps \<and> all = groups @ concat (map (group_items g) (page # ps))"
            by (intro exI [of _ "NextPage r # ps"] conjI)
        next
          fix all e assume "out = Inr (all, Some e)"
          from IH2 [OF this] show "all = []" by simp
        next
          fix all e assume "out = Inr (all, Some e)"
          from IH2 [OF this] obtain ps where "next_pages_fail g (NextPage r) ps e" by auto
          then have "next_pages_fail g page (NextPage r # ps) e"
            using l None Some False by simp
          then show "\<exists>ps. next_pages_fail g page ps e" ..
        qed
      qed
    qed
  qed
qed

text \<open>
  C4. After a count request that succeeded with a count \<^verbatim>\<open>make\<close> accepts (from 0 to
  \<open>2 ^ 45\<close>; it is the capacity of the slice), \<^verbatim>\<open>Groups\<close> asks for page 1 and then for
  the page each response names as the next. It returns a slice and no error exactly when
  the responses name pages up to one that names 0 as the next, and the slice is then the
  items of these pages in the order asked; it returns an error exactly when the listing
  of a page reached this way answers with that error, and then it returns no groups.
\<close>

theorem Groups_follows_next_page:
  assumes "GroupCount g = Inr (groupCount, None)" and "0 \<le> groupCount"
    and "groupCount \<le> 2 ^ 45"
  shows "(Groups g = Some (Inr (groups, None)))
           = (\<exists>ps. next_pages g 1 ps \<and> groups = concat (map (group_items g) (1 # ps)))
         \<and> (Groups g = Some (Inr (groups, Some err)))
           = (groups = [] \<and> (\<exists>ps. next_pages_fail g 1 ps err))"
proof -
  have run: "Groups g = list_groups g 1 []"
    using assms by (simp add: Groups_def makeslice_panics_iff)
  show ?thesis
    unfolding run
    using list_groups_returns [of g 1 "[]"] list_groups_next_pages [of g 1 _ "[]"]
      list_groups_next_pages_fail [of g 1 _ err "[]"]
    by (auto simp del: next_pages.simps next_pages_fail.simps)
qed


lemma Groups_count_above_capacity:
  "GroupCount g = Inr (groupCount, None) \<Longrightarrow> 2 ^ 45 < groupCount \<Longrightarrow>
   Groups g = Some (Inl MakeSliceCapOutOfRange)"
  by (simp add: Groups_def makeslice_panics_above)

lemma ListGroups_flaky:
  "ListGroups flaky 1 = ([\<lparr>group_ID = 1, FullPath = ''A/x''\<rparr>], Some (ok_response 2), None)"
  "ListGroups flaky 2 = ([], None, Some (ClientError ''timeout''))"
  by (simp_all add: flaky_def)

lemma next_pages_fail_flaky: "next_pages_fail flaky 1 [2] (ClientError ''timeout'')"
  by (simp add: ListGroups_flaky ok_response_def)

lemma next_pages_demo: "next_pages demo 1 [2, 3]"
  by (simp add: demo_def ok_response_def)

theorem Groups_follows_next_page_witness:
  "Groups demo = Some (Inr ([\<lparr>group_ID = 1, FullPath = ''A/x''\<rparr>, \<lparr>group_ID = 2, FullPath = ''A/x''\<rparr>,
      \<lparr>group_ID = 3, FullPath = ''A/x''\<rparr>], None))
   \<and> Groups flaky = Some (Inr ([], Some (ClientError ''timeout'')))"
proof -
  have cd: "GroupCount demo = Inr (250, None)" and cf: "GroupCount flaky = Inr (250, None)"
    by (simp_all add: GroupCount_def header_count_as_demo flaky_def)
  have z: "(0::int) \<le> 250" "(250::int) \<le> 2 ^ 45"
    by simp_all
  have "\<exists>ps. next_pages demo 1 ps
      \<and> concat (map (group_items demo) [1, 2, 3]) = concat (map (group_items demo) (1 # ps))"
    using next_pages_demo by (intro exI [of _ "[2, 3]"]) simp
  with Groups_follows_next_page [OF cd z, of "concat (map (group_items demo) [1, 2, 3])", THEN conjunct1]
  have d: "Groups demo = Some (Inr (concat (map (group_items demo) [1, 2, 3]), None))"
    by (rule iffD2)
  have "[] = [] \<and> (\<exists>ps. next_pages_fail flaky 1 ps (ClientError ''timeout''))"
    using next_pages_fail_flaky by blast
  with Groups_follows_next_page [OF cf z, of "[]" "ClientError ''timeout''", THEN conjunct2]
  have f: "Groups flaky = Some (Inr ([], Some (ClientError ''timeout'')))"
    by (rule iffD2)
  show ?thesis
    using d f by (simp add: group_items_def demo_def)
qed

subsection \<open>TopLevelGroups\<close>

text \<open>
  C6, as the code has it for full paths that do not hold the host, which are the full
  paths of groups. \<^verbatim>\<open>TopLevelGroups\<close> takes from each group the text of its full path
  before the first slash, and returns these components without the later occurrences, in
  the order of the first ones, as for \<open>[''A/x'', ''A/y'', ''B/z'']\<close>.
\<close>

theorem TopLevelGroups_first_seen:
  assumes "\<forall>grp \<in> set groups. \<not> sublist (BaseURL_Host g) (FullPath grp)"
  shows "TopLevelGroups g groups
           = Inr (first_seen (map (\<lambda>grp. takeWhile (\<lambda>c. c \<noteq> CHR ''/'') (FullPath grp)) groups))"
proof (cases groups)
  case Nil
  then show ?thesis
    by (simp add: TopLevelGroups_def)
next
  case (Cons grp rest)
  with assms have "\<not> sublist (BaseURL_Host g) (FullPath grp)"
    by simp
  then have host: "BaseURL_Host g \<noteq> []"
    by auto
  have "map (top_level_of (BaseURL_Host g)) groups
      = map (\<lambda>grp. takeWhile (\<lambda>c. c \<noteq> CHR ''/'') (FullPath grp)) groups"
    using assms by (simp add: top_level_of_def before_first_absent)
  then show ?thesis
    by (simp only: TopLevelGroups_def top_level_loop_first_seen [OF host]) simp
qed

theorem TopLevelGroups_first_seen_witness:
  "TopLevelGroups demo (at_paths [''A/x'', ''A/y'', ''B/z'']) = Inr [''A'', ''B'']"
proof -
  have n: "\<forall>grp \<in> set (at_paths [''A/x'', ''A/y'', ''B/z'']). \<not> sublist (BaseURL_Host demo) (FullPath grp)"
    by (simp add: demo_def at_paths_def sublist_Cons_right)
  show ?thesis
    using TopLevelGroups_first_seen [OF n]
    by (simp add: at_paths_def)
qed

text \<open>
  C6 as stated fails: for the full paths \<open>[''host/A/x'', ''host/A/y'', ''host/B/z'']\<close>
  and the host \<open>''host''\<close> the code does not strip the host and take the component after
  it; it takes the text before the host, which is empty, and the result is the one empty
  component.
\<close>

theorem TopLevelGroups_host_prefix:
  "TopLevelGroups demo (at_paths [''host/A/x'', ''host/A/y'', ''host/B/z'']) = Inr [[]]
   \<and> TopLevelGroups demo (at_paths [''host/A/x'', ''host/A/y'', ''host/B/z'']) \<noteq> Inr [''A'', ''B'']"
  by (simp add: TopLevelGroups_def at_paths_def demo_def index_at_def Split.simps)

subsection \<open>ParentGroup\<close>

text \<open>
  C5, as the code has it. Let the host be not empty. When the web URL is a text in which
  the host does not occur before its end, then the host, a slash, a component \<open>grp\<close>
  without a slash, and then nothing or a slash and more, where the host has no slash and
  does not occur in \<open>grp\<close>, \<^verbatim>\<open>ParentGroup\<close> returns \<open>grp\<close>. When no slash follows
  that first occurrence of the host, or the host does not occur in the web URL at all,
  the method has no error to return and stops with an index out of range.
\<close>

theorem ParentGroup_second_component:
  "(BaseURL_Host g \<noteq> [] \<and> CHR ''/'' \<notin> set (BaseURL_Host g)
      \<and> \<not> sublist (BaseURL_Host g) (butlast (scheme @ BaseURL_Host g))
      \<and> WebURL p = scheme @ BaseURL_Host g @ ''/'' @ grp @ tail
      \<and> CHR ''/'' \<notin> set grp \<and> \<not> sublist (BaseURL_Host g) grp \<and> (tail = [] \<or> hd tail = CHR ''/'')
    \<longrightarrow> ParentGroup g p = Inr grp)
   \<and> (BaseURL_Host g \<noteq> [] \<and> \<not> sublist (BaseURL_Host g) (butlast (scheme @ BaseURL_Host g))
      \<and> WebURL p = scheme @ BaseURL_Host g @ tail \<and> CHR ''/'' \<notin> set tail
    \<longrightarrow> ParentGroup g p = Inl IndexOutOfRange)
   \<and> (\<not> sublist (BaseURL_Host g) (WebURL p) \<longrightarrow> ParentGroup g p = Inl IndexOutOfRange)"
proof (intro conjI impI)
  let ?host = "BaseURL_Host g"
  assume a: "?host \<noteq> [] \<and> CHR ''/'' \<notin> set ?host
      \<and> \<not> sublist ?host (butlast (scheme @ ?host))
      \<and> WebURL p = scheme @ ?host @ ''/'' @ grp @ tail
      \<and> CHR ''/'' \<notin> set grp \<and> \<not> sublist ?host grp \<and> (tail = [] \<or> hd tail = CHR ''/'')"
  then have "Split (WebURL p) ?host = scheme # Split (''/'' @ grp @ tail) ?host"
    by (simp add: Split_first)
  moreover obtain rest where "Split (''/'' @ grp @ tail) ?host
      = before_first ?host (''/'' @ grp @ tail) # rest"
    using a Split_hd by blast
  ultimately have fp: "index_at (Split (WebURL p) ?host) 1 = Inr (before_first ?host (''/'' @ grp @ tail))"
    by (simp add: index_at_def)
  obtain t where t: "before_first ?host (grp @ tail) = grp @ t" "t = [] \<or> hd t = CHR ''/''"
    using a before_first_segment [of ?host "CHR ''/''" grp tail] by blast
  have "\<not> prefix ?host (''/'' @ grp @ tail)"
    using a by (cases ?host) auto
  then have "before_first ?host (''/'' @ grp @ tail) = ''/'' @ grp @ t"
    using t(1) by simp
  with fp have fp1: "index_at (Split (WebURL p) ?host) 1 = Inr (''/'' @ grp @ t)"
    by (simp only:)
  have "index_at (Split (''/'' @ grp @ t) ''/'') 1 = Inr grp"
    using a t(2) by (intro Split_slash_second) simp_all
  then show "ParentGroup g p = Inr grp"
    unfolding ParentGroup_def fp1 by simp
next
  let ?host = "BaseURL_Host g"
  assume a: "?host \<noteq> [] \<and> \<not> sublist ?host (butlast (scheme @ ?host))
      \<and> WebURL p = scheme @ ?host @ tail \<and> CHR ''/'' \<notin> set tail"
  then have "Split (WebURL p) ?host = scheme # Split tail ?host"
    by (simp add: Split_first)
  moreover obtain rest where "Split tail ?host = before_first ?host tail # rest"
    using a Split_hd by blast
  ultimately have fp: "index_at (Split (WebURL p) ?host) 1 = Inr (before_first ?host tail)"
    by (simp add: index_at_def)
  have "CHR ''/'' \<notin> set (before_first ?host tail)"
    using a set_before_first [of ?host tail] by auto
  then have "Split (before_first ?host tail) ''/'' = [before_first ?host tail]"
    by (simp add: Split_absent sublist_single)
  with fp show "ParentGroup g p = Inl IndexOutOfRange"
    by (simp add: ParentGroup_def index_at_def)
next
  assume a: "\<not> sublist (BaseURL_Host g) (WebURL p)"
  then have "BaseURL_Host g \<noteq> []"
    by auto
  with a show "ParentGroup g p = Inl IndexOutOfRange"
    by (simp add: ParentGroup_def Split_absent index_at_def)
qed

theorem ParentGroup_second_component_witness:
  "ParentGroup demo (at_url ''https://host/GroupA/project1'') = Inr ''GroupA''
   \<and> ParentGroup demo (at_url ''https://host/GroupA'') = Inr ''GroupA''
   \<and> ParentGroup demo (at_url ''https://host'') = Inl IndexOutOfRange
   \<and> ParentGroup demo (at_url ''GroupA/project1'') = Inl IndexOutOfRange"
proof -
  have h: "BaseURL_Host demo = ''host''"
    by (simp add: demo_def)
  have s: "\<not> sublist ''host'' (butlast (''https://'' @ ''host''))" "\<not> sublist ''host'' ''GroupA''"
    "\<not> sublist ''host'' ''GroupA/project1''"
    by (simp_all add: sublist_Cons_right)
  have "ParentGroup demo (at_url ''https://host/GroupA/project1'') = Inr ''GroupA''"
    using ParentGroup_second_component [of demo "''https://''" "at_url ''https://host/GroupA/project1''"
        "''GroupA''" "''/project1''", THEN conjunct1] s
    by (simp add: h at_url_def)
  moreover have "ParentGroup demo (at_url ''https://host/GroupA'') = Inr ''GroupA''"
    using ParentGroup_second_component [of demo "''https://''" "at_url ''https://host/GroupA''"
        "''GroupA''" "[]", THEN conjunct1] s
    by (simp add: h at_url_def)
  moreover have "ParentGroup demo (at_url ''https://host'') = Inl IndexOutOfRange"
    using ParentGroup_second_component [of demo "''https://''" "at_url ''https://host''"
        _ "[]", THEN conjunct2, THEN conjunct1] s
    by (simp add: h at_url_def)
  moreover have "ParentGroup demo (at_url ''GroupA/project1'') = Inl IndexOutOfRange"
    using ParentGroup_second_component [of demo _ "at_url ''GroupA/project1''",
        THEN conjunct2, THEN conjunct2] s
    by (simp add: h at_url_def)
  ultimately show ?thesis by simp
qed

text \<open>
  C5 as stated fails: the web URL \<open>''https://host''\<close> gives the index panic and no
  returned value; and a first component that contains the host is cut at it.
\<close>

theorem ParentGroup_no_MalformedURL:
  "ParentGroup demo (at_url ''https://host'') = Inl IndexOutOfRange
   \<and> (\<forall>name. ParentGroup demo (at_url ''https://host'') \<noteq> Inr name)
   \<and> ParentGroup demo (at_url ''https://host/xhosty/project1'') = Inr ''x''"
  by (simp add: ParentGroup_def at_url_def demo_def index_at_def Split.simps)

subsection \<open>GetLatestCommit\<close>

lemma format_d_200: "format_d 200 = ''200''"
  by code_simp

lemma format_d_202: "format_d 202 = ''202''"
  by code_simp

text \<open>
  C8, as the code has it. Let the listing of the project's commits answer with
  \<open>commits\<close>, \<open>resp\<close> and \<open>err\<close>, where an answer without an error has a response \<open>r\<close>.
  A failed request is handed on as it is. Otherwise a status other than 200 gives the
  error whose message names that status; a status of 200 and no commits gives the error
  with the message ``this repo has no commits''; in every other case the result is the ID
  of the first commit listed, with no error. So there is no error exactly when the
  request succeeded with status 200 and at least one commit. The two errors the method
  makes are plain errors of \<^verbatim>\<open>fmt.Errorf\<close>, of one dynamic type.
\<close>

theorem GetLatestCommit_cases:
  assumes "ListCommits g (project_ID p) = (commits, resp, err)"
    and "err = None \<Longrightarrow> resp = Some r"
  shows "GetLatestCommit g p =
           (case err of
              Some e \<Rightarrow> Inr ([], Some e)
            | None \<Rightarrow>
                if StatusCode r \<noteq> 200
                then Inr ([], Some (ErrorString
                       (''status code '' @ format_d (StatusCode r) @ '' not expected, expecting 200'')))
                else if commits = [] then Inr ([], Some (ErrorString ''this repo has no commits''))
                else Inr (commit_ID (hd commits), None))
         \<and> ((\<exists>hash. GetLatestCommit g p = Inr (hash, None))
              = (err = None \<and> StatusCode r = 200 \<and> commits \<noteq> []))
         \<and> (err = None \<and> (StatusCode r \<noteq> 200 \<or> commits = []) \<longrightarrow>
              (\<exists>e. GetLatestCommit g p = Inr ([], Some e) \<and> dynamic_type e = errors_errorString))"
  using assms
  by (cases err)
    (auto simp: GetLatestCommit_def format_d_200 StatusOK_def hd_conv_nth dynamic_type_def
      split: option.splits)

theorem GetLatestCommit_cases_witness:
  "GetLatestCommit demo ((named ''app'')\<lparr>project_ID := 3\<rparr>)
     = Inr ([], Some (ErrorString ''status code 202 not expected, expecting 200''))
   \<and> GetLatestCommit demo ((named ''app'')\<lparr>project_ID := 2\<rparr>)
     = Inr ([], Some (ErrorString ''this repo has no commits''))
   \<and> GetLatestCommit demo (named ''app'') = Inr (''c0ffee'', None)"
proof -
  have call3: "ListCommits demo (project_ID ((named ''app'')\<lparr>project_ID := 3\<rparr>))
                 = ([], Some accepted, None)"
    and call2: "ListCommits demo (project_ID ((named ''app'')\<lparr>project_ID := 2\<rparr>))
                 = ([], Some (ok_response 0), None)"
    and call1: "ListCommits demo (project_ID (named ''app''))
                 = ([\<lparr>commit_ID = ''c0ffee''\<rparr>, \<lparr>commit_ID = ''decade''\<rparr>], Some (ok_response 0), None)"
    by (simp_all add: demo_def named_def)
  show ?thesis
    using GetLatestCommit_cases [OF call3, of accepted, THEN conjunct1]
      GetLatestCommit_cases [OF call2, of "ok_response 0", THEN conjunct1]
      GetLatestCommit_cases [OF call1, of "ok_response 0", THEN conjunct1]
    by (simp add: accepted_def ok_response_def format_d_202)
qed

text \<open>
  C8 as stated fails: the error for a repository without commits is no error of a type of
  its own. It has the dynamic type of the error for an unexpected status, and only its
  message tells it apart.
\<close>

theorem GetLatestCommit_no_commits_untyped:
  "GetLatestCommit demo ((named ''app'')\<lparr>project_ID := 2\<rparr>)
     = Inr ([], Some (ErrorString ''this repo has no commits''))
   \<and> GetLatestCommit demo ((named ''app'')\<lparr>project_ID := 3\<rparr>)
     = Inr ([], Some (ErrorString ''status code 202 not expected, expecting 200''))
   \<and> dynamic_type (ErrorString ''this repo has no commits'')
     = dynamic_type (ErrorString ''status code 202 not expected, expecting 200'')"
  by (simp add: GetLatestCommit_def demo_def named_def accepted_def ok_response_def StatusOK_def
      format_d_200 format_d_202 dynamic_type_def)

subsection \<open>ProjectExists\<close>

lemma same_name_loop_all:
  "same_name_loop projectName candidates = ((\<forall>c \<in> set candidates. Name c = projectName), None, None)"
  by (induction candidates) auto

text \<open>
  C10. When the search of the group's projects answers with the list \<open>candidates\<close> and no
  error, \<^verbatim>\<open>ProjectExists\<close> returns true if and only if the list is not empty and the name
  of every candidate is \<open>projectName\<close>. So one candidate of another name makes the result
  false, also when another candidate has the name; and an empty list gives false with no
  error.
\<close>

theorem ProjectExists_all_candidates:
  assumes "ListGroupProjects g gid projectName = (candidates, resp, None)"
  shows "ProjectExists g gid projectName =
           (candidates \<noteq> [] \<and> (\<forall>c \<in> set candidates. Name c = projectName), None, None)
         \<and> (\<forall>c \<in> set candidates. Name c \<noteq> projectName \<longrightarrow>
              ProjectExists g gid projectName = (False, None, None))
         \<and> (candidates = [] \<longrightarrow> ProjectExists g gid projectName = (False, None, None))"
  using assms by (auto simp: ProjectExists_def same_name_loop_all)

theorem ProjectExists_all_candidates_witness:
  "named ''app'' \<in> set [named ''app'', named ''app-docs'']
   \<and> Name (named ''app'') = ''app''
   \<and> ProjectExists demo 1 ''app'' = (False, None, None)
   \<and> ProjectExists demo 2 ''app'' = (True, None, None)
   \<and> ProjectExists demo 3 ''app'' = (False, None, None)"
proof -
  have call1: "ListGroupProjects demo 1 ''app''
                 = ([named ''app'', named ''app-docs''], Some (ok_response 0), None)"
    and call2: "ListGroupProjects demo 2 ''app'' = ([named ''app''], Some (ok_response 0), None)"
    and call3: "ListGroupProjects demo 3 ''app'' = ([], Some (ok_response 0), None)"
    by (simp_all add: demo_def)
  show ?thesis
    using ProjectExists_all_candidates [OF call1] ProjectExists_all_candidates [OF call2]
      ProjectExists_all_candidates [OF call3]
    by (simp add: named_def)
qed

end
